theory Spec2Isabelle
  imports Complex_Main "HOL-Library.Word"
begin

section \<open>Python values\<close>

text \<open>
  A Python \<open>str\<close> is a sequence of Unicode code points; it is modelled as the list of
  their numbers, so that \<open>length\<close> counts what Python's \<open>len\<close> counts. Python's
  \<open>int\<close> is \<open>int\<close>, its \<open>float\<close> is idealised as \<open>real\<close> (exact arithmetic, no
  rounding and no NaN), a \<open>bytes\<close> value is a list of 8-bit words.
\<close>

type_synonym pystr = "nat list"

type_synonym byte = "8 word"

definition str :: "string \<Rightarrow> pystr" where
  \<comment> \<open>an ASCII literal of the source\<close>
  "str s = map of_char s"

datatype py_error = ValueError | ZeroDivisionError | OSError

text \<open>\<open>xs[i:]\<close>: a negative start counts from the end and is clipped at 0.\<close>

definition slice_from :: "'a list \<Rightarrow> int \<Rightarrow> 'a list" where
  "slice_from xs i =
     (let n = int (length xs);
          start = (if i < 0 then max (n + i) 0 else min i n)
      in drop (nat start) xs)"

text \<open>\<open>str(int)\<close>, as the f-strings of the controller format a process id.\<close>

function str_nat :: "nat \<Rightarrow> pystr" where
  "str_nat n = (if n < 10 then [48 + n] else str_nat (n div 10) @ [48 + n mod 10])"
  by pat_completeness auto
termination
  by (relation "measure id") auto

definition str_int :: "int \<Rightarrow> pystr" where
  "str_int i = (if i < 0 then 45 # str_nat (nat (- i)) else str_nat (nat i))"

section \<open>util.py\<close>

definition clamp :: "real \<Rightarrow> real \<Rightarrow> real \<Rightarrow> real" where
  "clamp v lo hi = (if v > hi then hi else if v < lo then lo else v)"

definition keep_last :: "'a list \<Rightarrow> int \<Rightarrow> 'a list" where
  "keep_last items max_items =
     (if max_items \<le> 0 then []
      else if int (length items) \<le> max_items then items
      else slice_from items (- max_items))"

text \<open>
  \<open>str.splitlines()\<close> breaks at \<open>\n\<close>, \<open>\r\<close>, \<open>\r\n\<close>, \<open>\v\<close>, \<open>\f\<close>, the separators
  \<open>\x1c\<close>, \<open>\x1d\<close>, \<open>\x1e\<close>, \<open>\x85\<close>, U+2028 and U+2029; the breaks are not kept and
  a trailing break opens no further line.
\<close>

definition is_linebreak :: "nat \<Rightarrow> bool" where
  "is_linebreak c \<longleftrightarrow> c \<in> {10, 11, 12, 13, 28, 29, 30, 133, 8232, 8233}"

fun splitlines_from :: "pystr \<Rightarrow> pystr \<Rightarrow> pystr list" where
  "splitlines_from cur [] = (if cur = [] then [] else [cur])"
| "splitlines_from cur [c] =
     (if is_linebreak c then [cur] else [cur @ [c]])"
| "splitlines_from cur (c # d # cs) =
     (if c = 13 \<and> d = 10 then cur # splitlines_from [] cs
      else if is_linebreak c then cur # splitlines_from [] (d # cs)
      else splitlines_from (cur @ [c]) (d # cs))"

definition splitlines :: "pystr \<Rightarrow> pystr list" where
  "splitlines s = splitlines_from [] s"

definition split_lines :: "pystr \<Rightarrow> pystr list" where
  "split_lines s = (let ls = splitlines s in if ls = [] then [[]] else ls)"

section \<open>textwrap.fill, as \<open>render\<close> calls it\<close>

text \<open>
  The standard library's \<open>TextWrapper\<close> with its default options (\<open>expand_tabs\<close>,
  \<open>replace_whitespace\<close>, \<open>drop_whitespace\<close>, \<open>break_long_words\<close>, \<open>break_on_hyphens\<close>, no
  indent, no \<open>max_lines\<close>). One part is simplified: the library splits the text into
  chunks with a regular expression that also breaks after the hyphens of a compound word
  and around a dash between words, according to Unicode character classes; here a chunk
  is a maximal run of whitespace or of non-whitespace. The two agree on every text
  without the character \<open>-\<close>.
\<close>

definition is_wrap_space :: "nat \<Rightarrow> bool" where
  \<comment> \<open>\<open>textwrap._whitespace\<close>\<close>
  "is_wrap_space c \<longleftrightarrow> c \<in> {9, 10, 11, 12, 13, 32}"

definition is_space :: "nat \<Rightarrow> bool" where
  \<comment> \<open>\<open>str.isspace\<close>, which decides what \<open>str.strip\<close> removes\<close>
  "is_space c \<longleftrightarrow>
     c \<in> {9, 10, 11, 12, 13, 28, 29, 30, 31, 32, 133, 160, 5760, 8232, 8233, 8239, 8287, 12288}
     \<or> (8192 \<le> c \<and> c \<le> 8202)"

definition blank :: "pystr \<Rightarrow> bool" where
  \<comment> \<open>\<open>chunk.strip() == ''\<close>\<close>
  "blank s = list_all is_space s"

fun expandtabs_from :: "nat \<Rightarrow> pystr \<Rightarrow> pystr" where
  "expandtabs_from col [] = []"
| "expandtabs_from col (c # cs) =
     (if c = 9 then
        (let incr = 8 - col mod 8 in replicate incr 32 @ expandtabs_from (col + incr) cs)
      else c # expandtabs_from (if c = 10 \<or> c = 13 then 0 else col + 1) cs)"

definition munge_whitespace :: "pystr \<Rightarrow> pystr" where
  "munge_whitespace s = map (\<lambda>c. if is_wrap_space c then 32 else c) (expandtabs_from 0 s)"

fun split_from :: "pystr \<Rightarrow> pystr \<Rightarrow> pystr list" where
  "split_from cur [] = (if cur = [] then [] else [cur])"
| "split_from cur (c # cs) =
     (if cur = [] \<or> is_wrap_space (last cur) = is_wrap_space c
      then split_from (cur @ [c]) cs
      else cur # split_from [c] cs)"

definition split_chunks :: "pystr \<Rightarrow> pystr list" where
  "split_chunks s = split_from [] (munge_whitespace s)"

text \<open>\<open>s.rfind(x)\<close>: the last index of \<open>x\<close>, if any.\<close>

fun rfind :: "nat \<Rightarrow> pystr \<Rightarrow> nat option" where
  "rfind x [] = None"
| "rfind x (c # cs) =
     (case rfind x cs of
        Some i \<Rightarrow> Some (Suc i)
      | None \<Rightarrow> if c = x then Some 0 else None)"

text \<open>
  \<open>_handle_long_word\<close>: the library keeps the chunks reversed and works at the end of the
  list; here the next chunk is the head. It is called with \<open>cur_len \<le> width\<close>.
\<close>

definition handle_long_word ::
  "pystr list \<Rightarrow> pystr list \<Rightarrow> nat \<Rightarrow> nat \<Rightarrow> pystr list \<times> pystr list" where
  "handle_long_word chunks cur_line cur_len width =
     (case chunks of
        [] \<Rightarrow> (chunks, cur_line)
      | chunk # rest \<Rightarrow>
          (let space_left = (if width < 1 then 1 else width - cur_len);
               hyphen = rfind 45 (take space_left chunk);
               end_pos =
                 (if length chunk > space_left then
                    (case hyphen of
                       Some h \<Rightarrow>
                         if h > 0 \<and> list_ex (\<lambda>c. c \<noteq> 45) (take h chunk) then h + 1
                         else space_left
                     | None \<Rightarrow> space_left)
                  else space_left)
           in (drop end_pos chunk # rest, cur_line @ [take end_pos chunk])))"

text \<open>The inner loop of \<open>_wrap_chunks\<close>: chunks go onto the line while they fit.\<close>

fun take_fitting ::
  "nat \<Rightarrow> pystr list \<Rightarrow> nat \<Rightarrow> pystr list \<Rightarrow> pystr list \<times> pystr list \<times> nat" where
  "take_fitting width cur_line cur_len [] = ([], cur_line, cur_len)"
| "take_fitting width cur_line cur_len (c # cs) =
     (if cur_len + length c \<le> width
      then take_fitting width (cur_line @ [c]) (cur_len + length c) cs
      else (c # cs, cur_line, cur_len))"

text \<open>
  One pass of the outer loop of \<open>_wrap_chunks\<close>, for a non-empty list of chunks: the
  chunks left and the line built. \<open>started\<close> says that a line was produced before.
\<close>

definition wrap_line :: "nat \<Rightarrow> bool \<Rightarrow> pystr list \<Rightarrow> pystr list \<times> pystr list" where
  "wrap_line width started chunks =
     (let chunks1 = (if blank (hd chunks) \<and> started then tl chunks else chunks);
          (chunks2, cur_line, cur_len) = take_fitting width [] 0 chunks1;
          (chunks3, cur_line2) =
            (if chunks2 \<noteq> [] \<and> length (hd chunks2) > width
             then handle_long_word chunks2 cur_line cur_len width
             else (chunks2, cur_line));
          cur_line3 =
            (if cur_line2 \<noteq> [] \<and> blank (last cur_line2) then butlast cur_line2
             else cur_line2)
      in (chunks3, cur_line3))"

definition csize :: "pystr list \<Rightarrow> nat" where
  \<comment> \<open>what every pass of the outer loop decreases\<close>
  "csize chunks = sum_list (map (\<lambda>c. Suc (length c)) chunks)"

lemma take_fitting_size:
  "take_fitting w cl n cs = (cs', cl', n') \<Longrightarrow>
     csize cs' + n' \<le> csize cs + n \<and> n \<le> n' \<and> (cs' = cs \<or> csize cs' < csize cs)"
  by (induction w cl n cs arbitrary: cs' cl' n' rule: take_fitting.induct)
     (fastforce simp: csize_def split: if_splits)+

lemma take_fitting_stop:
  "take_fitting w cl n cs = (c # cs', cl', n') \<Longrightarrow> w < n' + length c"
  by (induction w cl n cs arbitrary: cs' cl' n' rule: take_fitting.induct)
     (auto split: if_splits)

lemma rfind_less: "rfind x s = Some i \<Longrightarrow> i < length s"
  by (induction s arbitrary: i) (auto split: option.splits if_splits)

lemma handle_long_word_size:
  "handle_long_word cs cl n w = (cs', cl') \<Longrightarrow> csize cs' \<le> csize cs"
  by (auto simp: handle_long_word_def csize_def Let_def split: list.splits)

lemma handle_long_word_progress:
  assumes "handle_long_word (c # cs) cl 0 w = (cs', cl')" "0 < w" "w < length c"
  shows "csize cs' < csize (c # cs)"
proof -
  have "rfind 45 (take w c) = Some h \<Longrightarrow> h < w" for h
    using rfind_less[of 45 "take w c" h] by simp
  with assms show ?thesis
    by (auto simp: handle_long_word_def csize_def Let_def split: option.splits if_splits)
qed

lemma wrap_line_decreases:
  assumes "0 < width" "chunks \<noteq> []"
  shows "csize (fst (wrap_line width started chunks)) < csize chunks"
proof -
  define chunks1 where "chunks1 = (if blank (hd chunks) \<and> started then tl chunks else chunks)"
  obtain chunks2 cur_line cur_len
    where tf: "take_fitting width [] 0 chunks1 = (chunks2, cur_line, cur_len)"
    by (cases "take_fitting width [] 0 chunks1") auto
  define r where "r = (if chunks2 \<noteq> [] \<and> length (hd chunks2) > width
             then handle_long_word chunks2 cur_line cur_len width
             else (chunks2, cur_line))"
  have fst_eq: "fst (wrap_line width started chunks) = fst r"
    by (simp add: wrap_line_def Let_def chunks1_def[symmetric] tf r_def[symmetric]
          split: prod.splits)
  have c1: "chunks1 = chunks \<or> csize chunks1 < csize chunks"
    using assms(2) by (cases chunks) (auto simp: chunks1_def csize_def)
  from take_fitting_size[OF tf]
  have c2: "csize chunks2 + cur_len \<le> csize chunks1"
    "chunks2 = chunks1 \<or> csize chunks2 < csize chunks1"
    by auto
  have r_le: "csize (fst r) \<le> csize chunks2"
    using handle_long_word_size[of chunks2 cur_line cur_len width]
    by (cases "handle_long_word chunks2 cur_line cur_len width") (auto simp: r_def)
  show ?thesis
  proof (cases "csize chunks2 < csize chunks")
    case True
    with r_le fst_eq show ?thesis by simp
  next
    case False
    with c1 c2 have eq: "chunks2 = chunks" "chunks1 = chunks" "cur_len = 0"
      by auto
    then obtain c cs where cc: "chunks = c # cs"
      using assms(2) by (cases chunks) auto
    from take_fitting_stop[of width "[]" 0 chunks1 c cs cur_line cur_len] tf eq cc
    have long: "width < length c" by simp
    obtain cs' cl' where h: "handle_long_word (c # cs) cur_line 0 width = (cs', cl')"
      by (cases "handle_long_word (c # cs) cur_line 0 width") auto
    from handle_long_word_progress[OF h assms(1) long]
    have "csize cs' < csize chunks" using cc by simp
    moreover have "fst r = cs'" using long h eq cc by (simp add: r_def)
    ultimately show ?thesis using fst_eq by simp
  qed
qed

text \<open>
  The outer loop of \<open>_wrap_chunks\<close>. The library refuses a width below 1 before the loop
  (see \<open>wrap\<close>), so the loop runs with \<open>width > 0\<close> only.
\<close>

function wrap_loop :: "nat \<Rightarrow> pystr list \<Rightarrow> pystr list \<Rightarrow> pystr list" where
  "wrap_loop width lines chunks =
     (if chunks = [] \<or> width = 0 then lines
      else
        (let r = wrap_line width (lines \<noteq> []) chunks
         in wrap_loop width
              (if snd r \<noteq> [] then lines @ [concat (snd r)] else lines)
              (fst r)))"
  by pat_completeness auto
termination
  by (relation "measure (\<lambda>(width, lines, chunks). csize chunks)")
     (auto simp: wrap_line_decreases)

definition wrap :: "pystr \<Rightarrow> int \<Rightarrow> py_error + pystr list" where
  "wrap s width =
     (let chunks = split_chunks s
      in if width \<le> 0 then Inl ValueError else Inr (wrap_loop (nat width) [] chunks))"

fun join :: "pystr \<Rightarrow> pystr list \<Rightarrow> pystr" where
  "join sep [] = []"
| "join sep [x] = x"
| "join sep (x # y # ys) = x @ sep @ join sep (y # ys)"

definition fill :: "pystr \<Rightarrow> int \<Rightarrow> py_error + pystr" where
  "fill s width = (case wrap s width of Inl e \<Rightarrow> Inl e | Inr ls \<Rightarrow> Inr (join [10] ls))"

section \<open>log\_buffer.py\<close>

record log_buffer =
  max_messages :: int
  messages :: "pystr list"

definition append_msg :: "log_buffer \<Rightarrow> pystr \<Rightarrow> log_buffer" where
  "append_msg b message =
     b\<lparr>messages := keep_last (messages b @ [message]) (max_messages b)\<rparr>"

text \<open>
  \<open>render\<close> appends one wrapped string per line of every message; an exception of a
  call would end the loops, so the first error is the result.
\<close>

fun collect :: "(py_error + 'a) list \<Rightarrow> py_error + 'a list" where
  "collect [] = Inr []"
| "collect (Inl e # rs) = Inl e"
| "collect (Inr x # rs) = (case collect rs of Inl e \<Rightarrow> Inl e | Inr xs \<Rightarrow> Inr (x # xs))"

definition render :: "log_buffer \<Rightarrow> int \<Rightarrow> py_error + pystr list" where
  "render b width =
     (let w = max 20 width
      in collect (concat (map (\<lambda>msg. map (\<lambda>part. fill part w) (split_lines msg)) (messages b))))"

definition clear :: "log_buffer \<Rightarrow> log_buffer" where
  "clear b = b\<lparr>messages := []\<rparr>"

text \<open>A sequence of \<open>append\<close> calls, first to last.\<close>

definition appends :: "log_buffer \<Rightarrow> pystr list \<Rightarrow> log_buffer" where
  "appends b ms = foldl append_msg b ms"

definition new_log_buffer :: "int \<Rightarrow> log_buffer" where
  \<comment> \<open>\<open>LogBuffer(max_messages=m)\<close>: the store starts empty\<close>
  "new_log_buffer m = \<lparr>max_messages = m, messages = []\<rparr>"

text \<open>The buffer of the rendering example: capacity 10, one message.\<close>

definition c3_buffer :: log_buffer where
  "c3_buffer = append_msg (new_log_buffer 10) (str ''a very long line of text'')"

definition within_width :: "nat \<Rightarrow> pystr list \<Rightarrow> bool" where
  "within_width w ls = list_all (\<lambda>l. length l \<le> w) ls"

definition text_lines :: "pystr list \<Rightarrow> pystr list" where
  \<comment> \<open>the lines a reader sees: every rendered entry, broken at its line breaks\<close>
  "text_lines rendered = concat (map split_lines rendered)"

section \<open>stats.py\<close>

record resource_sample =
  cpu_percent :: real
  sys_cpu_percent :: real
  raw_cpu_sum :: real
  rss_mb :: int
  total_ram_mb :: int

text \<open>
  \<open>collections.deque(maxlen=n)\<close>: \<open>append\<close> adds at the right and, when the length then
  exceeds \<open>maxlen\<close>, drops the leftmost element.
\<close>

record deque =
  maxlen :: nat
  elems :: "real list"

definition deque_append :: "deque \<Rightarrow> real \<Rightarrow> deque" where
  "deque_append d x =
     (let xs = elems d @ [x]
      in d\<lparr>elems := (if length xs > maxlen d then tl xs else xs)\<rparr>)"

record stats_sampler =
  cpu_history :: deque
  cpu_count :: int
  warmed :: bool

text \<open>
  \<open>StatsSampler(cpu_history_size=k)\<close>; \<open>counted\<close> is what \<open>psutil.cpu_count(logical=True)\<close>
  returns (\<open>None\<close> when it cannot tell).
\<close>

definition new_stats_sampler :: "int \<Rightarrow> int option \<Rightarrow> stats_sampler" where
  "new_stats_sampler cpu_history_size counted =
     \<lparr>cpu_history = \<lparr>maxlen = nat (max 1 cpu_history_size), elems = []\<rparr>,
      cpu_count = (case counted of None \<Rightarrow> 1 | Some n \<Rightarrow> if n = 0 then 1 else n),
      warmed = False\<rparr>"

text \<open>
  What one call of \<open>sample\<close> reads from the operating system: for the target process and
  each of its descendants the CPU percentage since the previous reading and the resident
  set size in bytes (\<open>None\<close> where the call raises), the descendants themselves (\<open>None\<close>
  where \<open>children\<close> raises), the machine's CPU percentage and its memory in bytes.
\<close>

record proc_reading =
  cpu_reading :: "real option"
  rss_reading :: "int option"

record observation =
  target_pid :: nat
  target :: proc_reading
  children :: "proc_reading list option"
  sys_cpu :: "real option"
  total_ram :: "int option"

definition procs_of :: "observation \<Rightarrow> proc_reading list" where
  "procs_of ob = (case children ob of None \<Rightarrow> [target ob] | Some cs \<Rightarrow> target ob # cs)"

text \<open>
  The loop over the processes: a process whose CPU reading raises adds nothing, one whose
  memory reading raises has added its CPU reading already.
\<close>

fun read_procs :: "proc_reading list \<Rightarrow> real \<times> int \<Rightarrow> real \<times> int" where
  "read_procs [] acc = acc"
| "read_procs (p # ps) (cpu_sum, rss_bytes) =
     (case cpu_reading p of
        None \<Rightarrow> read_procs ps (cpu_sum, rss_bytes)
      | Some c \<Rightarrow>
          (case rss_reading p of
             None \<Rightarrow> read_procs ps (cpu_sum + c, rss_bytes)
           | Some r \<Rightarrow> read_procs ps (cpu_sum + c, rss_bytes + r)))"

definition py_int :: "real \<Rightarrow> int" where
  \<comment> \<open>\<open>int(x)\<close> of a float: truncation towards zero\<close>
  "py_int r = (if r < 0 then \<lceil>r\<rceil> else \<lfloor>r\<rfloor>)"

definition mean :: "real list \<Rightarrow> py_error + real" where
  \<comment> \<open>\<open>sum(h) / len(h)\<close>\<close>
  "mean h =
     (if length h = 0 then Inl ZeroDivisionError else Inr (sum_list h / real (length h)))"

text \<open>The normalised and clamped reading that a call pushes into the history.\<close>

definition cpu_display :: "stats_sampler \<Rightarrow> observation \<Rightarrow> real" where
  "cpu_display s ob =
     (let cpu_sum = fst (read_procs (procs_of ob) (0, 0));
          normalized =
            (if cpu_count s \<noteq> 0 then cpu_sum / real_of_int (cpu_count s) else cpu_sum)
      in clamp normalized 0 100)"

text \<open>
  \<open>sample\<close>: the result (\<open>None\<close> is "not ready") and the sampler after the call. The
  second round of CPU readings of the warm-up pass is discarded by the source and leaves
  no trace here.
\<close>

definition sample ::
  "stats_sampler \<Rightarrow> observation \<Rightarrow> (py_error + resource_sample option) \<times> stats_sampler" where
  "sample s ob =
     (let (cpu_sum, rss_bytes) = read_procs (procs_of ob) (0, 0)
      in if \<not> warmed s then (Inr None, s\<lparr>warmed := True\<rparr>)
         else
           (let rss = max 0 (py_int (real_of_int rss_bytes / 1024 / 1024));
                history = deque_append (cpu_history s) (cpu_display s ob);
                s' = s\<lparr>cpu_history := history\<rparr>
            in case mean (elems history) of
                 Inl e \<Rightarrow> (Inl e, s')
               | Inr cpu_smoothed \<Rightarrow>
                   (let sys = (case sys_cpu ob of None \<Rightarrow> 0 | Some v \<Rightarrow> v);
                        total = (case total_ram ob of
                                   None \<Rightarrow> max 4096 rss
                                 | Some t \<Rightarrow> py_int (real_of_int t / 1024 / 1024))
                    in (Inr (Some \<lparr>cpu_percent = cpu_smoothed, sys_cpu_percent = sys,
                                     raw_cpu_sum = cpu_sum, rss_mb = rss,
                                     total_ram_mb = max 1 total\<rparr>), s'))))"

text \<open>The sampler after a sequence of \<open>sample\<close> calls, first to last.\<close>

definition after_samples :: "stats_sampler \<Rightarrow> observation list \<Rightarrow> stats_sampler" where
  "after_samples s obs = foldl (\<lambda>s ob. snd (sample s ob)) s obs"

definition in_percent_range :: "real list \<Rightarrow> bool" where
  "in_percent_range xs = list_all (\<lambda>x. 0 \<le> x \<and> x \<le> 100) xs"

definition sampler_inv :: "stats_sampler \<Rightarrow> bool" where
  \<comment> \<open>what holds of every sampler from its construction on\<close>
  "sampler_inv s \<longleftrightarrow>
     0 < maxlen (cpu_history s) \<and> in_percent_range (elems (cpu_history s))"

definition populated :: "py_error + resource_sample option \<Rightarrow> bool" where
  \<comment> \<open>a snapshot with its CPU percentage in [0, 100] and its memory not negative\<close>
  "populated r =
     (case r of
        Inr (Some snap) \<Rightarrow>
          0 \<le> cpu_percent snap \<and> cpu_percent snap \<le> 100 \<and> 0 \<le> rss_mb snap
      | _ \<Rightarrow> False)"

definition cpu_of :: "py_error + resource_sample option \<Rightarrow> real option" where
  "cpu_of r = (case r of Inr (Some snap) \<Rightarrow> Some (cpu_percent snap) | _ \<Rightarrow> None)"

definition raises :: "py_error + 'a \<Rightarrow> bool" where
  "raises r = (case r of Inl e \<Rightarrow> True | Inr x \<Rightarrow> False)"

text \<open>
  An observation of a process without descendants: its process id, CPU reading and
  resident bytes, on a machine of 8 GiB.
\<close>

definition reading :: "nat \<Rightarrow> real \<Rightarrow> int \<Rightarrow> observation" where
  "reading p c r =
     \<lparr>target_pid = p, target = \<lparr>cpu_reading = Some c, rss_reading = Some r\<rparr>,
      children = Some [], sys_cpu = Some 0, total_ram = Some 8589934592\<rparr>"

text \<open>Two server processes, as two starts of a server give them.\<close>

definition process_a :: observation where
  "process_a = reading 100 0 104857600"

definition process_b :: observation where
  "process_b = reading 200 50 209715200"

section \<open>controller.py\<close>

text \<open>
  The bytes of \<open>s.encode("utf-8", errors="replace")\<close>: one to four bytes per code point,
  and a question mark for a lone surrogate, which UTF-8 cannot encode.
\<close>

definition encode_char :: "nat \<Rightarrow> byte list" where
  "encode_char c =
     (if c < 128 then [of_nat c]
      else if c < 2048 then [of_nat (192 + c div 64), of_nat (128 + c mod 64)]
      else if 55296 \<le> c \<and> c \<le> 57343 then [63]
      else if c < 65536 then
        [of_nat (224 + c div 4096), of_nat (128 + c div 64 mod 64), of_nat (128 + c mod 64)]
      else
        [of_nat (240 + c div 262144), of_nat (128 + c div 4096 mod 64),
         of_nat (128 + c div 64 mod 64), of_nat (128 + c mod 64)])"

definition encode_utf8 :: "pystr \<Rightarrow> byte list" where
  "encode_utf8 s = concat (map encode_char s)"

text \<open>
  The controller acts on the world through its two callbacks, the event loop and the
  operating system. Each such action is an event, and a method returns the events it
  caused, in their order: calls of the log sink and of the status callback, the spawn,
  the tasks created, cancelled and awaited, the writes to the child's input, the
  signals, and the waits for the child's exit (\<open>WaitFor t\<close> is
  \<open>asyncio.wait_for(proc.wait(), timeout=t)\<close>, \<open>Wait\<close> is \<open>proc.wait()\<close> without a limit).
  The callbacks are taken not to raise.
\<close>

datatype signal = SIGTERM | SIGKILL

datatype job = ReadStdout | ReadStderr | WaitForExit

record task =
  job :: job
  task_done :: bool

datatype event =
    Log pystr
  | Status bool
  | Spawn pystr "pystr option"
  | CreateTask job
  | CancelTask job
  | Gather "job list"
  | StdinWrite "byte list"
  | StdinDrain
  | StdinClose
  | StdinWaitClosed
  | Getpgid int
  | Killpg int signal
  | ProcTerminate
  | ProcKill
  | WaitFor real
  | Wait

text \<open>
  The process handle, as far as the controller reads it: \<open>pid\<close> and \<open>stdin\<close> are read with
  \<open>getattr(..., None)\<close>, \<open>returncode\<close> is \<open>None\<close> until the child has exited.
\<close>

record stream_writer =
  has_wait_closed :: bool

record process =
  pid :: "int option"
  returncode :: "int option"
  stdin :: "stream_writer option"

record controller =
  server_cmd :: pystr
  cwd :: "pystr option"
  proc :: "process option"
  reader_tasks :: "task list"
  wait_task :: "task option"

definition new_controller :: "pystr \<Rightarrow> pystr option \<Rightarrow> controller" where
  "new_controller cmd dir =
     \<lparr>server_cmd = cmd, cwd = dir, proc = None, reader_tasks = [], wait_task = None\<rparr>"

definition is_running :: "controller \<Rightarrow> bool" where
  "is_running c = (case proc c of None \<Rightarrow> False | Some p \<Rightarrow> returncode p = None)"

definition pid_of :: "controller \<Rightarrow> int option" where
  \<comment> \<open>the property \<open>pid\<close>\<close>
  "pid_of c = (case proc c of None \<Rightarrow> None | Some p \<Rightarrow> pid p)"

text \<open>
  \<open>start\<close>: \<open>spawned\<close> is what \<open>create_subprocess_shell\<close> gives, the new process or the
  exception it raises, which \<open>start\<close> lets through. The result is the events, the
  controller after the call and how the call ended.
\<close>

definition start ::
  "py_error + process \<Rightarrow> controller \<Rightarrow> event list \<times> controller \<times> (py_error + unit)" where
  "start spawned c =
     (if is_running c then ([Log (str ''Server is already running.'')], c, Inr ())
      else
        (let announce =
               (case cwd c of
                  None \<Rightarrow> []
                | Some d \<Rightarrow> if d = [] then [] else [Log (str ''Working directory: '' @ d)])
               @ [Log (str ''Starting server: '' @ server_cmd c), Spawn (server_cmd c) (cwd c)]
         in case spawned of
              Inl e \<Rightarrow> (announce, c, Inl e)
            | Inr p \<Rightarrow>
                (announce @ [Status True]
                 @ (case pid p of
                      None \<Rightarrow> []
                    | Some n \<Rightarrow> [Log (str ''Server started (PID='' @ str_int n @ str '').'')])
                 @ [CreateTask ReadStdout, CreateTask ReadStderr, CreateTask WaitForExit],
                 c\<lparr>proc := Some p,
                   reader_tasks := [\<lparr>job = ReadStdout, task_done = False\<rparr>,
                                    \<lparr>job = ReadStderr, task_done = False\<rparr>],
                   wait_task := Some \<lparr>job = WaitForExit, task_done = False\<rparr>\<rparr>,
                 Inr ())))"

text \<open>
  What the operating system answers during one \<open>stop\<close>: whether \<open>stdin.close()\<close> raises,
  for each of the two signals the process group that \<open>os.getpgid\<close> finds (\<open>None\<close> when it
  raises) and whether \<open>os.killpg\<close> raises, whether the child exits within the first and
  within the second limit, and how the last wait ends. The exceptions of
  \<open>stdin.wait_closed()\<close>, \<open>proc.terminate()\<close> and \<open>proc.kill()\<close> are swallowed and change
  nothing, so they have no field.
\<close>

datatype outcome = Succeeds | Raises

datatype wait_outcome = Returns | Fails | Blocks

record stop_env =
  stdin_close :: outcome
  getpgid_term :: "int option"
  killpg_term :: outcome
  exits_in_grace :: bool
  getpgid_kill :: "int option"
  killpg_kill :: outcome
  exits_after_kill :: bool
  final_wait :: wait_outcome

definition cancel_readers :: "controller \<Rightarrow> event list \<times> controller" where
  "cancel_readers c =
     (let tasks = filter (\<lambda>t. \<not> task_done t) (reader_tasks c)
      in (map (\<lambda>t. CancelTask (job t)) tasks
          @ (if tasks \<noteq> [] then [Gather (map job tasks)] else []),
          c\<lparr>reader_tasks := []\<rparr>))"

definition close_stdin :: "outcome \<Rightarrow> process \<Rightarrow> event list" where
  "close_stdin closing p =
     (case stdin p of
        None \<Rightarrow> []
      | Some w \<Rightarrow>
          if closing = Raises then [StdinClose]
          else StdinClose # (if has_wait_closed w then [StdinWaitClosed] else []))"

text \<open>
  One signal, as \<open>_terminate_process\<close> sends each of its two: to the process group, and
  to the process alone (\<open>proc.terminate()\<close> for SIGTERM, \<open>proc.kill()\<close> for SIGKILL) when
  the group lookup or the group signal raises.
\<close>

definition fallback :: "signal \<Rightarrow> event" where
  "fallback sig = (case sig of SIGTERM \<Rightarrow> ProcTerminate | SIGKILL \<Rightarrow> ProcKill)"

definition signal_group :: "int \<Rightarrow> signal \<Rightarrow> int option \<Rightarrow> outcome \<Rightarrow> event list" where
  "signal_group n sig pgid killed =
     (case pgid of
        None \<Rightarrow> [Getpgid n, fallback sig]
      | Some g \<Rightarrow>
          if killed = Raises then [Getpgid n, Killpg g sig, fallback sig]
          else [Getpgid n, Killpg g sig])"

text \<open>
  \<open>_terminate_process\<close>: the events, and whether the call returns (it does not when the
  last, unlimited wait blocks for ever).
\<close>

definition terminate_process :: "stop_env \<Rightarrow> process \<Rightarrow> event list \<times> bool" where
  "terminate_process env p =
     (case pid p of
        None \<Rightarrow> ([], True)
      | Some n \<Rightarrow>
          (let graceful =
                 signal_group n SIGTERM (getpgid_term env) (killpg_term env) @ [WaitFor 5]
           in if exits_in_grace env then (graceful, True)
              else
                (let forceful =
                       graceful
                       @ [Log (str ''Server did not stop in time; force killing...'')]
                       @ signal_group n SIGKILL (getpgid_kill env) (killpg_kill env)
                       @ [WaitFor 3]
                 in if exits_after_kill env then (forceful, True)
                    else (forceful @ [Wait], final_wait env \<noteq> Blocks))))"

text \<open>
  \<open>stop\<close>: the events, the controller after them, and whether the call returns. The
  handle is released (\<open>proc := None\<close>) after \<open>_terminate_process\<close> has returned, and the
  status callback follows at once.
\<close>

definition stop :: "stop_env \<Rightarrow> controller \<Rightarrow> event list \<times> controller \<times> bool" where
  "stop env c =
     (case proc c of
        None \<Rightarrow> ([], c, True)
      | Some p \<Rightarrow>
          (let (cancelled, c1) = cancel_readers c;
               closed = close_stdin (stdin_close env) p;
               (terminated, returned) = terminate_process env p;
               before = Log (str ''Stopping server...'') # cancelled @ closed @ terminated
           in if returned then (before @ [Status False], c1\<lparr>proc := None\<rparr>, True)
              else (before, c1, False)))"

text \<open>\<open>send_command\<close>: \<open>drained\<close> says whether \<open>stdin.drain()\<close> raises.\<close>

definition send_command ::
  "outcome \<Rightarrow> controller \<Rightarrow> pystr \<Rightarrow> event list \<times> controller \<times> (py_error + unit)" where
  "send_command drained c command =
     (case proc c of
        None \<Rightarrow> ([Log (str ''Server is not running.'')], c, Inr ())
      | Some p \<Rightarrow>
          (case stdin p of
             None \<Rightarrow> ([Log (str ''Server is not running.'')], c, Inr ())
           | Some w \<Rightarrow>
               ([StdinWrite (encode_utf8 (command @ [10])), StdinDrain], c,
                if drained = Raises then Inl OSError else Inr ())))"

text \<open>An event that sends the signal \<open>s\<close>, to the group or to the process alone.\<close>

fun is_signal :: "signal \<Rightarrow> event \<Rightarrow> bool" where
  "is_signal s (Killpg g s') = (s = s')"
| "is_signal s ProcTerminate = (s = SIGTERM)"
| "is_signal s ProcKill = (s = SIGKILL)"
| "is_signal s e = False"

definition sends :: "signal \<Rightarrow> event list \<Rightarrow> bool" where
  "sends s evs = list_ex (is_signal s) evs"

fun is_spawn :: "event \<Rightarrow> bool" where
  "is_spawn (Spawn cmd dir) = True"
| "is_spawn e = False"

text \<open>
  A server process with its pipes, the controller that has started it, and a child that
  ignores SIGTERM: the group lookup fails for the second signal and the child is gone
  only at the last wait.
\<close>

definition server_process :: process where
  "server_process =
     \<lparr>pid = Some 4242, returncode = None, stdin = Some \<lparr>has_wait_closed = True\<rparr>\<rparr>"

definition running_controller :: controller where
  "running_controller =
     fst (snd (start (Inr server_process) (new_controller (str ''./bedrock_server'') None)))"

definition stubborn_env :: stop_env where
  "stubborn_env =
     \<lparr>stdin_close = Succeeds, getpgid_term = Some 4242, killpg_term = Succeeds,
      exits_in_grace = False, getpgid_kill = None, killpg_kill = Succeeds,
      exits_after_kill = False, final_wait = Returns\<rparr>"

section \<open>Properties of the log buffer\<close>

lemma slice_from_neg:
  "0 < m \<Longrightarrow> slice_from xs (- m) = drop (length xs - nat m) xs"
  by (auto simp: slice_from_def Let_def max_def nat_diff_distrib' intro!: arg_cong2[where f=drop])

lemma keep_last_drop:
  "keep_last xs m = drop (length xs - nat m) xs"
  by (auto simp: keep_last_def slice_from_neg)

lemma messages_append_msg:
  "messages (append_msg b x) =
     drop (Suc (length (messages b)) - nat (max_messages b)) (messages b @ [x])"
  by (simp add: append_msg_def keep_last_drop)

lemma max_messages_append_msg: "max_messages (append_msg b x) = max_messages b"
  by (simp add: append_msg_def)

lemma max_messages_appends: "max_messages (appends b ms) = max_messages b"
  unfolding appends_def
  by (induction ms rule: rev_induct) (simp_all add: max_messages_append_msg)

lemma appends_snoc: "appends b (ms @ [x]) = append_msg (appends b ms) x"
  by (simp add: appends_def)

text \<open>Trimming after every append is trimming once at the end.\<close>

lemma drop_last_step:
  assumes "n = length xs"
  shows "drop (Suc (length (drop (n - k) xs)) - k) (drop (n - k) xs @ [x])
           = drop (Suc n - k) (xs @ [x])"
proof (cases "k \<le> n")
  case False
  with assms show ?thesis by simp
next
  case True
  show ?thesis
  proof (cases "k = 0")
    case True
    with assms show ?thesis by simp
  next
    case False
    with True assms
    have "Suc (length (drop (n - k) xs)) - k = 1" "Suc n - k = Suc (n - k)" "n - k < length xs"
      by auto
    then show ?thesis by (simp add: drop_Suc tl_append split: list.splits)
  qed
qed

lemma messages_appends:
  "ms \<noteq> [] \<Longrightarrow> messages (appends b ms) =
     drop (length (messages b @ ms) - nat (max_messages b)) (messages b @ ms)"
proof (induction ms rule: rev_induct)
  case Nil
  then show ?case by simp
next
  case (snoc x ms)
  show ?case
  proof (cases "ms = []")
    case True
    then show ?thesis by (simp add: appends_def messages_append_msg)
  next
    case False
    with snoc.IH have IH: "messages (appends b ms) =
       drop (length (messages b @ ms) - nat (max_messages b)) (messages b @ ms)" by simp
    show ?thesis
      unfolding appends_snoc messages_append_msg max_messages_appends IH
      using drop_last_step[of "length (messages b @ ms)" "messages b @ ms"
              "nat (max_messages b)" x]
      by simp
  qed
qed

lemma messages_appends_new:
  "messages (appends (new_log_buffer m) ms) = drop (length ms - nat m) ms"
  using messages_appends[of ms "new_log_buffer m"]
  by (cases "ms = []") (simp_all add: new_log_buffer_def appends_def)

text \<open>
  C2. A buffer of capacity \<open>m\<close> that received the messages \<open>ms\<close>, in this order, holds
  exactly the last \<open>m\<close> of them (all of them while there are at most \<open>m\<close>), in the order
  of their appends: the oldest are evicted first. So it holds at most \<open>m\<close> entries after
  each append; and one append to any buffer, whatever it held, leaves at most
  \<open>max_messages\<close> entries. (A count is never below 0, so the bound by the capacity reads
  \<open>0 \<le> m\<close>; a negative capacity keeps nothing.)
\<close>

theorem log_buffer_holds_most_recent:
  "messages (appends (new_log_buffer m) ms) = drop (length ms - nat m) ms
   \<and> length (messages (appends (new_log_buffer m) ms)) = min (length ms) (nat m)
   \<and> (0 \<le> m \<longrightarrow> int (length (messages (appends (new_log_buffer m) ms))) \<le> m)
   \<and> (0 \<le> max_messages b \<longrightarrow>
        int (length (messages (append_msg b x))) \<le> max_messages b)"
proof -
  have "int (length (messages (append_msg b x))) \<le> max_messages b" if "0 \<le> max_messages b"
    using that by (simp add: messages_append_msg)
  then show ?thesis
    by (simp add: messages_appends_new) linarith
qed

theorem log_buffer_holds_most_recent_witness:
  "(0::int) \<le> 2
   \<and> messages (appends (new_log_buffer 2) [str ''one'', str ''two'', str ''three''])
       = [str ''two'', str ''three'']
   \<and> int (length (messages (appends (new_log_buffer 2) [str ''one'', str ''two'', str ''three'']))) \<le> 2
   \<and> int (length (messages (append_msg (new_log_buffer 2) (str ''one'')))) \<le> 2"
  using log_buffer_holds_most_recent
          [of 2 "[str ''one'', str ''two'', str ''three'']" "new_log_buffer 2" "str ''one''"]
  by (simp add: new_log_buffer_def)

text \<open>
  C9. With a capacity of 0 or less, \<open>keep_last\<close> returns the empty list, so the store is
  empty after every append, whatever it held before, and \<open>render\<close> returns the empty list
  at every width.
\<close>

theorem nonpositive_capacity_keeps_nothing:
  assumes "max_messages b \<le> 0"
  shows "keep_last xs (max_messages b) = []
         \<and> messages (append_msg b x) = []
         \<and> render (append_msg b x) w = Inr []
         \<and> (ms \<noteq> [] \<longrightarrow> messages (appends b ms) = [] \<and> render (appends b ms) w = Inr [])"
proof -
  have m: "messages (appends b ms) = []" if "ms \<noteq> []"
    using messages_appends[OF that, of b] assms by simp
  show ?thesis
    using assms m by (simp add: keep_last_def append_msg_def render_def)
qed

theorem nonpositive_capacity_keeps_nothing_witness:
  "max_messages \<lparr>max_messages = - 1, messages = [str ''old'']\<rparr> \<le> 0
   \<and> [str ''x''] \<noteq> ([] :: pystr list)
   \<and> messages (append_msg \<lparr>max_messages = - 1, messages = [str ''old'']\<rparr> (str ''new'')) = []
   \<and> render (append_msg \<lparr>max_messages = - 1, messages = [str ''old'']\<rparr> (str ''new'')) 80 = Inr []
   \<and> messages (appends \<lparr>max_messages = - 1, messages = [str ''old'']\<rparr> [str ''x'']) = []"
  using nonpositive_capacity_keeps_nothing
          [of "\<lparr>max_messages = - 1, messages = [str ''old'']\<rparr>" "[]" "str ''new''" 80 "[str ''x'']"]
  by auto

text \<open>
  C3, as stated, fails: \<open>render\<close> raises every width below 20 to 20, so at width 10 the
  message is wrapped at 20 columns. The result is one entry, the two lines
  \<open>a very long line of\<close> and \<open>text\<close> joined by a line feed; the entry has 24 characters
  and its first line 19.
\<close>

lemmas wrap_eval =
  wrap_def split_chunks_def munge_whitespace_def str_def is_wrap_space_def wrap_line_def
  blank_def is_space_def fill_def split_lines_def splitlines_def is_linebreak_def

lemma render_c3_buffer:
  "render c3_buffer 10 = Inr [str ''a very long line of'' @ [10] @ str ''text'']"
  by (simp add: c3_buffer_def render_def new_log_buffer_def append_msg_def keep_last_def
        wrap_eval)

theorem render_width_10_counterexample:
  "render c3_buffer 10 = Inr [str ''a very long line of'' @ [10] @ str ''text'']
   \<and> \<not> 1 < length [str ''a very long line of'' @ [10] @ str ''text'']
   \<and> \<not> within_width 10 [str ''a very long line of'' @ [10] @ str ''text'']
   \<and> \<not> within_width 10 (text_lines [str ''a very long line of'' @ [10] @ str ''text''])"
  by (simp add: render_c3_buffer within_width_def text_lines_def
        str_def split_lines_def splitlines_def is_linebreak_def)

text \<open>
  C3, amended. \<open>render\<close> at a width below 20 is \<open>render\<close> at width 20. For the buffer
  holding \<open>a very long line of text\<close>, \<open>render(10)\<close> returns one entry whose two lines,
  \<open>a very long line of\<close> and \<open>text\<close>, are each at most 20 characters long and are the
  message cut at a space between two words.
\<close>

theorem render_enforces_minimum_width:
  "render b w = render b (max 20 w)
   \<and> render c3_buffer 10 = Inr [str ''a very long line of'' @ [10] @ str ''text'']
   \<and> text_lines [str ''a very long line of'' @ [10] @ str ''text'']
       = [str ''a very long line of'', str ''text'']
   \<and> within_width 20 (text_lines [str ''a very long line of'' @ [10] @ str ''text''])
   \<and> messages c3_buffer = [str ''a very long line of'' @ [32] @ str ''text'']"
proof -
  have "render b w = render b (max 20 w)"
    by (simp add: render_def)
  moreover have "messages c3_buffer = [str ''a very long line of'' @ [32] @ str ''text'']"
    by (simp add: c3_buffer_def new_log_buffer_def append_msg_def keep_last_def str_def)
  ultimately show ?thesis
    by (simp add: render_c3_buffer within_width_def text_lines_def
        str_def split_lines_def splitlines_def is_linebreak_def)
qed

theorem render_enforces_minimum_width_witness:
  "render c3_buffer 10 = render c3_buffer (max 20 10)
   \<and> render c3_buffer 10 = Inr [str ''a very long line of'' @ [10] @ str ''text'']"
  using render_enforces_minimum_width [of c3_buffer 10] by auto

section \<open>Properties of the resource sampler\<close>

lemma clamp_range: "lo \<le> hi \<Longrightarrow> lo \<le> clamp v lo hi \<and> clamp v lo hi \<le> hi"
  by (simp add: clamp_def)

lemma cpu_display_range: "0 \<le> cpu_display s ob \<and> cpu_display s ob \<le> 100"
  using clamp_range[of 0 100] by (simp add: cpu_display_def Let_def)

lemma elems_deque_append:
  "elems (deque_append d x) =
     (if length (elems d) < maxlen d then elems d @ [x] else tl (elems d @ [x]))"
  by (auto simp: deque_append_def Let_def)

lemma maxlen_deque_append [simp]: "maxlen (deque_append d x) = maxlen d"
  by (simp add: deque_append_def Let_def)

lemma deque_append_nonempty: "0 < maxlen d \<Longrightarrow> elems (deque_append d x) \<noteq> []"
  by (cases "elems d") (auto simp: elems_deque_append)

lemma in_percent_range_deque_append:
  "in_percent_range (elems d) \<Longrightarrow> 0 \<le> x \<Longrightarrow> x \<le> 100 \<Longrightarrow>
     in_percent_range (elems (deque_append d x))"
  by (cases "elems d") (auto simp: elems_deque_append in_percent_range_def)

lemma sum_list_bounds:
  "in_percent_range xs \<Longrightarrow> 0 \<le> sum_list xs \<and> sum_list xs \<le> 100 * real (length xs)"
  by (induction xs) (auto simp: in_percent_range_def algebra_simps)

lemma mean_range:
  assumes "in_percent_range xs" "xs \<noteq> []"
  shows "\<exists>m. mean xs = Inr m \<and> 0 \<le> m \<and> m \<le> 100"
proof -
  from assms(2) have pos: "0 < real (length xs)" by simp
  from sum_list_bounds[OF assms(1)] pos
  have "0 \<le> sum_list xs / real (length xs)" "sum_list xs / real (length xs) \<le> 100"
    by (simp_all add: divide_le_eq)
  with assms(2) show ?thesis by (simp add: mean_def)
qed

lemma sample_cold: "\<not> warmed s \<Longrightarrow> sample s ob = (Inr None, s\<lparr>warmed := True\<rparr>)"
  by (simp add: sample_def split: prod.splits)

lemma sample_state:
  "warmed s \<Longrightarrow>
     snd (sample s ob) = s\<lparr>cpu_history := deque_append (cpu_history s) (cpu_display s ob)\<rparr>"
  by (simp add: sample_def Let_def split: prod.splits sum.splits)

lemma sample_inv: "sampler_inv s \<Longrightarrow> sampler_inv (snd (sample s ob))"
  by (cases "warmed s")
     (simp_all add: sample_cold sample_state sampler_inv_def in_percent_range_deque_append
        cpu_display_range)

lemma sample_warmed: "warmed (snd (sample s ob))"
  by (cases "warmed s") (simp_all add: sample_cold sample_state)

lemma sample_warm_populated:
  assumes "sampler_inv s" "warmed s"
  shows "populated (fst (sample s ob))"
proof -
  let ?h = "deque_append (cpu_history s) (cpu_display s ob)"
  from assms(1) have "in_percent_range (elems ?h)" "elems ?h \<noteq> []"
    by (simp_all add: sampler_inv_def in_percent_range_deque_append cpu_display_range
          deque_append_nonempty)
  from mean_range[OF this] obtain m where m: "mean (elems ?h) = Inr m" "0 \<le> m" "m \<le> 100"
    by blast
  with assms(2) show ?thesis
    by (simp add: sample_def Let_def populated_def split: prod.splits)
qed

lemma new_inv: "sampler_inv (new_stats_sampler k cnt)"
  by (simp add: sampler_inv_def new_stats_sampler_def in_percent_range_def)

lemma after_samples_snoc:
  "after_samples s (obs @ [ob]) = snd (sample (after_samples s obs) ob)"
  by (simp add: after_samples_def)

lemma after_samples_Cons: "after_samples s (ob # obs) = after_samples (snd (sample s ob)) obs"
  by (simp add: after_samples_def)

lemma after_samples_Nil: "after_samples s [] = s"
  by (simp add: after_samples_def)

lemma after_samples_inv: "sampler_inv s \<Longrightarrow> sampler_inv (after_samples s obs)"
  by (induction obs rule: rev_induct)
     (simp_all add: after_samples_snoc after_samples_Nil sample_inv)

lemma after_samples_warmed: "obs \<noteq> [] \<Longrightarrow> warmed (after_samples s obs)"
  by (induction obs rule: rev_induct) (simp_all add: after_samples_snoc sample_warmed)

lemma cpu_count_sample [simp]: "cpu_count (snd (sample s ob)) = cpu_count s"
  by (cases "warmed s") (simp_all add: sample_cold sample_state)

lemma maxlen_sample [simp]:
  "maxlen (cpu_history (snd (sample s ob))) = maxlen (cpu_history s)"
  by (cases "warmed s") (simp_all add: sample_cold sample_state)

lemma maxlen_after_samples:
  "maxlen (cpu_history (after_samples s obs)) = maxlen (cpu_history s)"
  by (induction obs rule: rev_induct) (simp_all add: after_samples_snoc after_samples_Nil)

lemma cpu_display_cong:
  "cpu_count s' = cpu_count s \<Longrightarrow> cpu_display s' ob = cpu_display s ob"
  by (simp add: cpu_display_def cong: if_cong)

text \<open>The smoothed value is the mean of the window as the call leaves it.\<close>

lemma sample_cpu_of:
  assumes "warmed s" "0 < maxlen (cpu_history s)"
  shows "cpu_of (fst (sample s ob)) =
           Some (sum_list (elems (cpu_history (snd (sample s ob))))
                 / real (length (elems (cpu_history (snd (sample s ob))))))"
proof -
  have "elems (deque_append (cpu_history s) (cpu_display s ob)) \<noteq> []"
    using assms(2) by (rule deque_append_nonempty)
  with assms(1) show ?thesis
    by (simp add: sample_def Let_def cpu_of_def mean_def split: prod.splits)
qed

text \<open>
  C4, as stated, fails: the warm-up flag belongs to the sampler, not to the process. A
  sampler whose first call was for process 100 answers its first call for process 200
  with a snapshot.
\<close>

theorem first_sample_other_process_counterexample:
  "target_pid process_b \<noteq> target_pid process_a
   \<and> fst (sample (new_stats_sampler 5 (Some 4)) process_a) = Inr None
   \<and> fst (sample (snd (sample (new_stats_sampler 5 (Some 4)) process_a)) process_b)
       = Inr (Some \<lparr>cpu_percent = 12.5, sys_cpu_percent = 0, raw_cpu_sum = 50, rss_mb = 200,
                     total_ram_mb = 8192\<rparr>)
   \<and> fst (sample (snd (sample (new_stats_sampler 5 (Some 4)) process_a)) process_b) \<noteq> Inr None"
  by (simp add: process_a_def process_b_def reading_def sample_def new_stats_sampler_def
        procs_of_def cpu_display_def clamp_def deque_append_def mean_def py_int_def Let_def)

text \<open>
  C4, amended. The first \<open>sample\<close> call on a new sampler returns "not ready" and warms the
  sampler, whatever the process; every later call on that sampler, for the same process
  or another one, returns a snapshot whose smoothed CPU percentage lies in [0, 100] and
  whose resident memory is an integer that is not negative.
\<close>

theorem first_sample_of_sampler_not_ready:
  "fst (sample (new_stats_sampler k cnt) ob1) = Inr None
   \<and> warmed (snd (sample (new_stats_sampler k cnt) ob1))
   \<and> populated (fst (sample (after_samples (new_stats_sampler k cnt) (ob1 # obs)) ob))"
proof -
  let ?s = "after_samples (new_stats_sampler k cnt) (ob1 # obs)"
  have "sampler_inv ?s" "warmed ?s"
    by (simp_all add: after_samples_inv new_inv after_samples_warmed)
  then have "populated (fst (sample ?s ob))"
    by (rule sample_warm_populated)
  then show ?thesis
    by (simp add: sample_cold new_stats_sampler_def)
qed

theorem first_sample_of_sampler_not_ready_witness:
  "fst (sample (new_stats_sampler 5 (Some 4)) process_a) = Inr None
   \<and> populated (fst (sample (after_samples (new_stats_sampler 5 (Some 4)) [process_a]) process_b))"
  using first_sample_of_sampler_not_ready [of 5 "Some 4" process_a "[]" process_b]
  by simp

text \<open>
  C5. A sampler built with \<open>cpu_history_size = 3\<close> and warmed by its first call, then
  given calls whose normalised readings are 10, 20 and 90, holds the window 10, 20, 90
  and reports (10 + 20 + 90) / 3 = 40; a fourth reading 30 evicts the 10, the window is
  20, 90, 30 and the report (20 + 90 + 30) / 3, which is 46.67 to two decimals. For every
  warmed sampler \<open>t\<close> of capacity at least 1, a call appends its reading to the window,
  drops the oldest one when the window was full, and reports the arithmetic mean of the
  window. (Floats are exact reals here.)
\<close>

theorem rolling_mean_of_three:
  assumes "s = snd (sample (new_stats_sampler 3 cnt) ob0)"
    and "cpu_display s o1 = 10" and "cpu_display s o2 = 20"
    and "cpu_display s o3 = 90" and "cpu_display s o4 = 30"
    and "warmed t" and "0 < maxlen (cpu_history t)"
  shows "elems (cpu_history (after_samples s [o1, o2, o3])) = [10, 20, 90]
         \<and> cpu_of (fst (sample (after_samples s [o1, o2]) o3)) = Some ((10 + 20 + 90) / 3)
         \<and> cpu_of (fst (sample (after_samples s [o1, o2]) o3)) = Some 40
         \<and> elems (cpu_history (after_samples s [o1, o2, o3, o4])) = [20, 90, 30]
         \<and> cpu_of (fst (sample (after_samples s [o1, o2, o3]) o4)) = Some ((20 + 90 + 30) / 3)
         \<and> \<bar>(20 + 90 + 30) / 3 - 46.67\<bar> < (0.005 :: real)
         \<and> elems (cpu_history (snd (sample t ob))) =
             (if length (elems (cpu_history t)) < maxlen (cpu_history t)
              then elems (cpu_history t) @ [cpu_display t ob]
              else tl (elems (cpu_history t) @ [cpu_display t ob]))
         \<and> cpu_of (fst (sample t ob)) =
             Some (sum_list (elems (cpu_history (snd (sample t ob))))
                   / real (length (elems (cpu_history (snd (sample t ob))))))"
proof -
  have s: "warmed s" "maxlen (cpu_history s) = 3" "elems (cpu_history s) = []"
    by (simp_all add: assms(1) sample_cold new_stats_sampler_def)
  define s1 where "s1 = snd (sample s o1)"
  define s2 where "s2 = snd (sample s1 o2)"
  define s3 where "s3 = snd (sample s2 o3)"
  define s4 where "s4 = snd (sample s3 o4)"
  have c: "cpu_count s1 = cpu_count s" "cpu_count s2 = cpu_count s" "cpu_count s3 = cpu_count s"
    by (simp_all add: s1_def s2_def s3_def)
  have d: "cpu_display s1 o2 = 20" "cpu_display s2 o3 = 90" "cpu_display s3 o4 = 30"
    using assms(3-5) cpu_display_cong[OF c(1)] cpu_display_cong[OF c(2)]
      cpu_display_cong[OF c(3)]
    by simp_all
  have w: "warmed s1" "warmed s2" "warmed s3"
    by (simp_all add: s1_def s2_def s3_def sample_warmed)
  have m: "maxlen (cpu_history s1) = 3" "maxlen (cpu_history s2) = 3"
    "maxlen (cpu_history s3) = 3"
    by (simp_all add: s1_def s2_def s3_def s)
  have e1: "elems (cpu_history s1) = [10]"
    by (simp add: s1_def sample_state s elems_deque_append assms(2))
  have e2: "elems (cpu_history s2) = [10, 20]"
    by (simp add: s2_def sample_state w m elems_deque_append e1 d)
  have e3: "elems (cpu_history s3) = [10, 20, 90]"
    by (simp add: s3_def sample_state w m elems_deque_append e2 d)
  have e4: "elems (cpu_history s4) = [20, 90, 30]"
    by (simp add: s4_def sample_state w m elems_deque_append e3 d)
  have a2: "after_samples s [o1, o2] = s2" "after_samples s [o1, o2, o3] = s3"
    "after_samples s [o1, o2, o3, o4] = s4"
    by (simp_all add: after_samples_Cons after_samples_Nil s1_def s2_def s3_def s4_def)
  have r3: "cpu_of (fst (sample s2 o3)) = Some 40"
    using sample_cpu_of[of s2 o3] w m e3 by (simp add: s3_def[symmetric])
  have r4: "cpu_of (fst (sample s3 o4)) = Some (140 / 3)"
    using sample_cpu_of[of s3 o4] w m e4 by (simp add: s4_def[symmetric])
  have g1: "elems (cpu_history (snd (sample t ob))) =
             (if length (elems (cpu_history t)) < maxlen (cpu_history t)
              then elems (cpu_history t) @ [cpu_display t ob]
              else tl (elems (cpu_history t) @ [cpu_display t ob]))"
    using assms(6) by (simp add: sample_state elems_deque_append)
  note g2 = sample_cpu_of[OF assms(6,7), of ob]
  show ?thesis
    unfolding a2 e3 e4 r3 r4 using g1 g2 by simp
qed

theorem rolling_mean_of_three_witness:
  "cpu_display (snd (sample (new_stats_sampler 3 (Some 4)) (reading 7 0 0))) (reading 7 40 0) = 10
   \<and> cpu_display (snd (sample (new_stats_sampler 3 (Some 4)) (reading 7 0 0))) (reading 7 80 0) = 20
   \<and> cpu_display (snd (sample (new_stats_sampler 3 (Some 4)) (reading 7 0 0))) (reading 7 360 0) = 90
   \<and> cpu_display (snd (sample (new_stats_sampler 3 (Some 4)) (reading 7 0 0))) (reading 7 120 0) = 30
   \<and> warmed (snd (sample (new_stats_sampler 3 (Some 4)) (reading 7 0 0)))
   \<and> 0 < maxlen (cpu_history (snd (sample (new_stats_sampler 3 (Some 4)) (reading 7 0 0))))
   \<and> cpu_of (fst (sample (after_samples (snd (sample (new_stats_sampler 3 (Some 4)) (reading 7 0 0)))
                      [reading 7 40 0, reading 7 80 0]) (reading 7 360 0))) = Some 40
   \<and> cpu_of (fst (sample (after_samples (snd (sample (new_stats_sampler 3 (Some 4)) (reading 7 0 0)))
                      [reading 7 40 0, reading 7 80 0, reading 7 360 0]) (reading 7 120 0)))
       = Some (140 / 3)"
proof -
  let ?s = "snd (sample (new_stats_sampler 3 (Some 4)) (reading 7 0 0))"
  have d: "cpu_display ?s (reading 7 40 0) = 10" "cpu_display ?s (reading 7 80 0) = 20"
    "cpu_display ?s (reading 7 360 0) = 90" "cpu_display ?s (reading 7 120 0) = 30"
    by (simp_all add: cpu_display_def new_stats_sampler_def reading_def procs_of_def clamp_def
          Let_def)
  have w: "warmed ?s" "0 < maxlen (cpu_history ?s)"
    by (simp_all add: sample_warmed new_stats_sampler_def)
  from rolling_mean_of_three[OF refl d w] d w show ?thesis
    by simp
qed

text \<open>
  C10. Whatever \<open>cpu_history_size\<close> is given, also 0 or a negative number, the window of
  the sampler has the capacity \<open>max(1, cpu_history_size)\<close>, at construction and after any
  sequence of calls. No call raises; and every call after the first (the warm-up call)
  leaves the window non-empty, so the mean over it does not divide by zero.
\<close>

theorem history_window_never_empty:
  "maxlen (cpu_history (new_stats_sampler k cnt)) = nat (max 1 k)
   \<and> maxlen (cpu_history (after_samples (new_stats_sampler k cnt) obs)) = nat (max 1 k)
   \<and> 0 < nat (max 1 k)
   \<and> \<not> raises (fst (sample (after_samples (new_stats_sampler k cnt) obs) ob))
   \<and> (obs \<noteq> [] \<longrightarrow>
        elems (cpu_history (snd (sample (after_samples (new_stats_sampler k cnt) obs) ob))) \<noteq> []
        \<and> mean (elems (cpu_history (snd (sample (after_samples (new_stats_sampler k cnt) obs) ob))))
            \<noteq> Inl ZeroDivisionError)"
proof -
  let ?s = "after_samples (new_stats_sampler k cnt) obs"
  have inv: "sampler_inv ?s"
    by (simp add: after_samples_inv new_inv)
  have ml: "maxlen (cpu_history ?s) = nat (max 1 k)"
    by (simp add: maxlen_after_samples new_stats_sampler_def)
  have nr: "\<not> raises (fst (sample ?s ob))"
  proof (cases "warmed ?s")
    case True
    from sample_warm_populated[OF inv True, of ob] show ?thesis
      by (auto simp: populated_def raises_def split: sum.splits)
  next
    case False
    then show ?thesis by (simp add: sample_cold raises_def)
  qed
  have ne: "elems (cpu_history (snd (sample ?s ob))) \<noteq> []" if "obs \<noteq> []"
  proof -
    from that have "warmed ?s" by (rule after_samples_warmed)
    with inv show ?thesis
      by (simp add: sample_state sampler_inv_def deque_append_nonempty)
  qed
  show ?thesis
    using ml nr ne by (auto simp: new_stats_sampler_def mean_def)
qed

theorem history_window_never_empty_witness:
  "[reading 7 0 0] \<noteq> []
   \<and> maxlen (cpu_history (new_stats_sampler (- 2) None)) = 1
   \<and> \<not> raises (fst (sample (after_samples (new_stats_sampler (- 2) None) [reading 7 0 0])
           (reading 7 50 0)))
   \<and> elems (cpu_history (snd (sample (after_samples (new_stats_sampler (- 2) None) [reading 7 0 0])
        (reading 7 50 0)))) \<noteq> []"
  using history_window_never_empty [of "- 2" None "[reading 7 0 0]" "reading 7 50 0"]
  by auto

section \<open>Properties of the controller\<close>

lemma encode_utf8_append: "encode_utf8 (a @ b) = encode_utf8 a @ encode_utf8 b"
  by (simp add: encode_utf8_def)

lemma encode_utf8_newline: "encode_utf8 [10] = [10]"
  by (simp add: encode_utf8_def encode_char_def)

lemma cancel_readers_no_signal: "\<not> sends s (fst (cancel_readers c))"
  by (auto simp: sends_def cancel_readers_def Let_def list_ex_iff)

lemma close_stdin_no_signal: "\<not> sends s (close_stdin r p)"
  by (auto simp: sends_def close_stdin_def split: option.splits)

lemma sends_append: "sends s (xs @ ys) \<longleftrightarrow> sends s xs \<or> sends s ys"
  by (simp add: sends_def)

lemma signal_group_sends: "sends s (signal_group n s g k)"
  by (cases s) (auto simp: sends_def signal_group_def fallback_def split: option.splits)

lemma signal_group_other: "s \<noteq> s' \<Longrightarrow> \<not> sends s' (signal_group n s g k)"
  by (cases s; cases s') (auto simp: sends_def signal_group_def fallback_def split: option.splits)

lemma running_controller_eq:
  "running_controller =
     \<lparr>server_cmd = str ''./bedrock_server'', cwd = None, proc = Some server_process,
      reader_tasks = [\<lparr>job = ReadStdout, task_done = False\<rparr>,
                      \<lparr>job = ReadStderr, task_done = False\<rparr>],
      wait_task = Some \<lparr>job = WaitForExit, task_done = False\<rparr>\<rparr>"
  by (simp add: running_controller_def start_def new_controller_def is_running_def)

text \<open>
  C8. \<open>stop\<close> on a controller that holds no process handle causes no event (no call of
  the status callback, no log line), leaves the controller as it is, and returns.
\<close>

theorem stop_without_process_is_noop:
  "proc c = None \<Longrightarrow> stop env c = ([], c, True)"
  by (simp add: stop_def)

theorem stop_without_process_is_noop_witness:
  "proc (new_controller (str ''./bedrock_server'') None) = None
   \<and> stop stubborn_env (new_controller (str ''./bedrock_server'') None)
       = ([], new_controller (str ''./bedrock_server'') None, True)"
  using stop_without_process_is_noop [of "new_controller (str ''./bedrock_server'') None" stubborn_env]
  by (simp add: new_controller_def)

text \<open>
  C6. With a process handle whose input pipe is there, \<open>send_command(text)\<close> writes
  the UTF-8 bytes of \<open>text\<close> followed by one line feed in a single write, drains the pipe
  and does nothing else; the controller is unchanged. \<open>send_command("say hi")\<close> writes
  the seven bytes of \<open>say hi\<close> and the line feed.
\<close>

theorem send_command_writes_line:
  assumes "proc c = Some p" and "stdin p = Some w"
  shows "fst (send_command d c command) = [StdinWrite (encode_utf8 command @ [10]), StdinDrain]
         \<and> fst (snd (send_command d c command)) = c
         \<and> fst (send_command d c (str ''say hi''))
             = [StdinWrite [115, 97, 121, 32, 104, 105, 10], StdinDrain]"
proof -
  have "encode_utf8 (str ''say hi'') = [115, 97, 121, 32, 104, 105]"
    by (simp add: encode_utf8_def encode_char_def str_def)
  with assms show ?thesis
    by (simp add: send_command_def encode_utf8_append encode_utf8_newline)
qed

theorem send_command_writes_line_witness:
  "proc running_controller = Some server_process
   \<and> stdin server_process = Some \<lparr>has_wait_closed = True\<rparr>
   \<and> fst (send_command Succeeds running_controller (str ''say hi''))
       = [StdinWrite [115, 97, 121, 32, 104, 105, 10], StdinDrain]"
proof -
  have a: "proc running_controller = Some server_process"
    "stdin server_process = Some \<lparr>has_wait_closed = True\<rparr>"
    by (simp_all add: running_controller_eq server_process_def)
  from send_command_writes_line[OF a, of Succeeds "str ''say hi''"] a show ?thesis
    by blast
qed

text \<open>
  C7. A \<open>start\<close> on a controller that is not running, whose spawn succeeds and whose
  child has not exited, followed by a second \<open>start\<close> with no \<open>stop\<close> between them: the
  status callback is called with \<open>True\<close> once in all, one process is spawned, and the second
  call only logs that the server is already running and leaves the controller as the
  first call left it.
\<close>

theorem start_twice_one_online:
  assumes "\<not> is_running c" and "returncode p = None"
    and "start (Inr p) c = (ev1, c1, r1)" and "start spawned c1 = (ev2, c2, r2)"
  shows "count_list (ev1 @ ev2) (Status True) = 1
         \<and> length (filter is_spawn (ev1 @ ev2)) = 1
         \<and> ev2 = [Log (str ''Server is already running.'')]
         \<and> c2 = c1 \<and> proc c2 = Some p \<and> r1 = Inr () \<and> r2 = Inr ()"
proof -
  from assms(1,3) have c1: "proc c1 = Some p" and r1: "r1 = Inr ()"
    by (auto simp: start_def Let_def)
  from assms(1,3) have e1: "count_list ev1 (Status True) = 1" "length (filter is_spawn ev1) = 1"
    by (auto simp: start_def Let_def split: option.splits)
  from c1 assms(2) have "is_running c1"
    by (simp add: is_running_def)
  with assms(4) have "ev2 = [Log (str ''Server is already running.'')]" "c2 = c1" "r2 = Inr ()"
    by (auto simp: start_def)
  with e1 c1 r1 show ?thesis by simp
qed

theorem start_twice_one_online_witness:
  "\<not> is_running (new_controller (str ''./bedrock_server'') None)
   \<and> returncode server_process = None
   \<and> count_list
       (fst (start (Inr server_process) (new_controller (str ''./bedrock_server'') None))
        @ fst (start (Inr server_process) running_controller)) (Status True) = 1
   \<and> fst (start (Inr server_process) running_controller)
       = [Log (str ''Server is already running.'')]"
proof -
  let ?c = "new_controller (str ''./bedrock_server'') None"
  have a: "\<not> is_running ?c" "returncode server_process = None"
    by (simp_all add: is_running_def new_controller_def server_process_def)
  have b: "start (Inr server_process) ?c
             = (fst (start (Inr server_process) ?c), running_controller,
                snd (snd (start (Inr server_process) ?c)))"
    by (simp add: running_controller_def)
  have c: "start (Inr server_process) running_controller
             = (fst (start (Inr server_process) running_controller),
                fst (snd (start (Inr server_process) running_controller)),
                snd (snd (start (Inr server_process) running_controller)))"
    by simp
  from start_twice_one_online[OF a b c] a show ?thesis
    by blast
qed

text \<open>
  C1. \<open>stop\<close> on a controller whose process has a process id and does not exit within
  the first limit. The events are, in this order: the log line, the cancellation of the
  readers and the closing of the input pipe, none of which is a signal; SIGTERM to the
  process group or, failing that, to the process; the wait of at most 5; the log line of
  the forced kill; SIGKILL to the group or, failing that, to the process; the wait of
  at most 3; the unlimited wait if the child is still there; and, once the call gets
  that far, the status callback with \<open>False\<close>. No SIGKILL comes before the first wait is
  over. The handle is released exactly when the status callback is reached, that is
  after both signals; while the last wait blocks, the handle is still held.
\<close>

theorem stop_escalates_in_order:
  assumes "proc c = Some p" and "pid p = Some n" and "\<not> exits_in_grace env"
  shows "fst (stop env c) =
           (Log (str ''Stopping server...'') # fst (cancel_readers c)
              @ close_stdin (stdin_close env) p)
           @ signal_group n SIGTERM (getpgid_term env) (killpg_term env)
           @ [WaitFor 5, Log (str ''Server did not stop in time; force killing...'')]
           @ signal_group n SIGKILL (getpgid_kill env) (killpg_kill env)
           @ [WaitFor 3]
           @ (if exits_after_kill env then [] else [Wait])
           @ (if exits_after_kill env \<or> final_wait env \<noteq> Blocks then [Status False] else [])
         \<and> \<not> sends SIGTERM (Log (str ''Stopping server...'') # fst (cancel_readers c)
                @ close_stdin (stdin_close env) p)
         \<and> sends SIGTERM (signal_group n SIGTERM (getpgid_term env) (killpg_term env))
         \<and> \<not> sends SIGKILL ((Log (str ''Stopping server...'') # fst (cancel_readers c)
                @ close_stdin (stdin_close env) p)
                @ signal_group n SIGTERM (getpgid_term env) (killpg_term env)
                @ [WaitFor 5, Log (str ''Server did not stop in time; force killing...'')])
         \<and> sends SIGKILL (signal_group n SIGKILL (getpgid_kill env) (killpg_kill env))
         \<and> snd (snd (stop env c)) = (exits_after_kill env \<or> final_wait env \<noteq> Blocks)
         \<and> proc (fst (snd (stop env c)))
             = (if exits_after_kill env \<or> final_wait env \<noteq> Blocks then None else Some p)"
proof -
  have t: "terminate_process env p =
             (signal_group n SIGTERM (getpgid_term env) (killpg_term env)
              @ [WaitFor 5, Log (str ''Server did not stop in time; force killing...'')]
              @ signal_group n SIGKILL (getpgid_kill env) (killpg_kill env)
              @ [WaitFor 3]
              @ (if exits_after_kill env then [] else [Wait]),
              exits_after_kill env \<or> final_wait env \<noteq> Blocks)"
    using assms(2,3) by (simp add: terminate_process_def Let_def)
  have c1: "snd (cancel_readers c) = c\<lparr>reader_tasks := []\<rparr>"
    by (simp add: cancel_readers_def Let_def)
  have trace: "fst (stop env c) =
           (Log (str ''Stopping server...'') # fst (cancel_readers c)
              @ close_stdin (stdin_close env) p)
           @ signal_group n SIGTERM (getpgid_term env) (killpg_term env)
           @ [WaitFor 5, Log (str ''Server did not stop in time; force killing...'')]
           @ signal_group n SIGKILL (getpgid_kill env) (killpg_kill env)
           @ [WaitFor 3]
           @ (if exits_after_kill env then [] else [Wait])
           @ (if exits_after_kill env \<or> final_wait env \<noteq> Blocks then [Status False] else [])"
    using assms(1) by (simp add: stop_def t Let_def split: prod.splits)
  have ret: "snd (snd (stop env c)) = (exits_after_kill env \<or> final_wait env \<noteq> Blocks)"
    using assms(1) by (simp add: stop_def t Let_def split: prod.splits)
  have st: "proc (fst (snd (stop env c)))
             = (if exits_after_kill env \<or> final_wait env \<noteq> Blocks then None else Some p)"
    using assms(1) c1 by (auto simp: stop_def t Let_def split: prod.splits)
  have pre: "\<not> sends s (Log (str ''Stopping server...'') # fst (cancel_readers c)
                @ close_stdin (stdin_close env) p)" for s
    using cancel_readers_no_signal[of s c] close_stdin_no_signal[of s "stdin_close env" p]
    by (simp add: sends_def)
  have nk: "\<not> sends SIGKILL ((Log (str ''Stopping server...'') # fst (cancel_readers c)
                @ close_stdin (stdin_close env) p)
                @ signal_group n SIGTERM (getpgid_term env) (killpg_term env)
                @ [WaitFor 5, Log (str ''Server did not stop in time; force killing...'')])"
    using pre[of SIGKILL] signal_group_other[of SIGTERM SIGKILL n "getpgid_term env" "killpg_term env"]
    by (simp add: sends_def)
  show ?thesis
    using trace ret st pre[of SIGTERM] nk signal_group_sends by blast
qed

theorem stop_escalates_in_order_witness:
  "proc running_controller = Some server_process
   \<and> pid server_process = Some 4242
   \<and> \<not> exits_in_grace stubborn_env
   \<and> fst (stop stubborn_env running_controller) =
       [Log (str ''Stopping server...''), CancelTask ReadStdout, CancelTask ReadStderr,
        Gather [ReadStdout, ReadStderr], StdinClose, StdinWaitClosed,
        Getpgid 4242, Killpg 4242 SIGTERM, WaitFor 5,
        Log (str ''Server did not stop in time; force killing...''),
        Getpgid 4242, ProcKill, WaitFor 3, Wait, Status False]
   \<and> proc (fst (snd (stop stubborn_env running_controller))) = None"
proof -
  have a: "proc running_controller = Some server_process" "pid server_process = Some 4242"
    "\<not> exits_in_grace stubborn_env"
    by (simp_all add: running_controller_eq server_process_def stubborn_env_def)
  from stop_escalates_in_order[OF a] a show ?thesis
    by (simp add: running_controller_eq server_process_def stubborn_env_def cancel_readers_def
          close_stdin_def signal_group_def fallback_def)
qed

end
